theory Spec2Isabelle
  imports Main
begin

section \<open>Python strings and the Unicode tables behind \<open>re\<close> and \<open>str.upper\<close>\<close>

text \<open>
  A Python \<open>str\<close> is a sequence of Unicode code points, and \<open>len\<close>, indexing and
  \<open>re\<close> all count code points. A character is therefore a code point (a natural
  number) and a string a list of them. \<open>ord\<close> reads an ASCII literal of the source as
  its code point.
\<close>

type_synonym pychar = nat
type_synonym pystr = "pychar list"

definition ord :: "char \<Rightarrow> pychar" where
  "ord c = of_char c"

definition str :: "string \<Rightarrow> pystr" where
  "str s = map ord s"

text \<open>
  \<open>\s\<close>, \<open>\d\<close>, \<open>\w\<close> of a \<open>str\<close> pattern, \<open>int\<close> and \<open>str.upper\<close> consult the
  Unicode Character Database of the interpreter. Its ASCII rows are fixed and written out
  below; the rows from code point 128 on are a parameter of the model:
  \<open>ucd_space\<close> is \<open>Py_UNICODE_ISSPACE\<close>, \<open>ucd_decimal\<close> is \<open>Py_UNICODE_TODECIMAL\<close>
  (\<open>None\<close> for a character that is no decimal digit), \<open>ucd_alnum\<close> is
  \<open>Py_UNICODE_ISALNUM\<close> and \<open>ucd_upper\<close> is the full upper-case mapping, which may
  give several code points (U+00DF gives \<open>SS\<close>).
\<close>

record unicode_db =
  ucd_space :: "pychar \<Rightarrow> bool"
  ucd_decimal :: "pychar \<Rightarrow> nat option"
  ucd_alnum :: "pychar \<Rightarrow> bool"
  ucd_upper :: "pychar \<Rightarrow> pystr"

definition is_space :: "unicode_db \<Rightarrow> pychar \<Rightarrow> bool" where
  "is_space db c =
     (if c < 128 then (9 \<le> c \<and> c \<le> 13) \<or> (28 \<le> c \<and> c \<le> 32) else ucd_space db c)"

definition to_decimal :: "unicode_db \<Rightarrow> pychar \<Rightarrow> nat option" where
  "to_decimal db c =
     (if c < 128 then (if 48 \<le> c \<and> c \<le> 57 then Some (c - 48) else None)
      else ucd_decimal db c)"

definition is_word :: "unicode_db \<Rightarrow> pychar \<Rightarrow> bool" where
  "is_word db c =
     (if c < 128
      then (48 \<le> c \<and> c \<le> 57) \<or> (65 \<le> c \<and> c \<le> 90) \<or> (97 \<le> c \<and> c \<le> 122) \<or> c = 95
      else ucd_alnum db c)"

definition upper_char :: "unicode_db \<Rightarrow> pychar \<Rightarrow> pystr" where
  "upper_char db c =
     (if c < 128 then (if 97 \<le> c \<and> c \<le> 122 then [c - 32] else [c]) else ucd_upper db c)"

text \<open>\<open>s.upper()\<close>: every character is replaced by its upper-case mapping.\<close>

definition upper :: "unicode_db \<Rightarrow> pystr \<Rightarrow> pystr" where
  "upper db s = concat (map (upper_char db) s)"

text \<open>
  The rows of the database for Latin-1 (code points 128 to 255), as an instance to
  evaluate on; code points from 256 on are left without class and without case.
\<close>

definition latin1_upper :: "pychar \<Rightarrow> pystr" where
  "latin1_upper c =
     (if c = 181 then [924]
      else if c = 223 then [83, 83]
      else if c = 255 then [376]
      else if 224 \<le> c \<and> c \<le> 254 \<and> c \<noteq> 247 then [c - 32]
      else [c])"

definition latin1_alnum :: "pychar \<Rightarrow> bool" where
  "latin1_alnum c =
     (c \<in> {170, 178, 179, 181, 185, 186, 188, 189, 190}
      \<or> (192 \<le> c \<and> c \<le> 255 \<and> c \<noteq> 215 \<and> c \<noteq> 247))"

definition latin1_db :: unicode_db where
  "latin1_db = \<lparr> ucd_space = (\<lambda>c. c = 133 \<or> c = 160),
                 ucd_decimal = (\<lambda>c. None),
                 ucd_alnum = latin1_alnum,
                 ucd_upper = latin1_upper \<rparr>"

text \<open>
  The same rows with the full-width digits U+FF10 to U+FF19 added: they are decimal
  digits (category Nd) with the values 0 to 9, word characters, without case and no
  white space. \<open>\d\<close> matches them and \<open>int\<close> reads them.
\<close>

definition fw_db :: unicode_db where
  "fw_db = \<lparr> ucd_space = (\<lambda>c. c = 133 \<or> c = 160),
             ucd_decimal = (\<lambda>c. if 65296 \<le> c \<and> c \<le> 65305 then Some (c - 65296) else None),
             ucd_alnum = (\<lambda>c. latin1_alnum c \<or> (65296 \<le> c \<and> c \<le> 65305)),
             ucd_upper = latin1_upper \<rparr>"

section \<open>The subset of \<open>re\<close> the program uses\<close>

text \<open>
  A character set is a bracket expression, given by its members: the escapes \<open>\d\<close> and
  \<open>\s\<close>, a literal character, or a range of literal characters. \<open>\d\<close> outside
  brackets is the set with that one member.
\<close>

datatype cset_item = Esc_d | Esc_s | Lit char | Range char char

type_synonym cset = "cset_item list"

fun item_matches :: "unicode_db \<Rightarrow> cset_item \<Rightarrow> pychar \<Rightarrow> bool" where
  "item_matches db Esc_d c = (to_decimal db c \<noteq> None)"
| "item_matches db Esc_s c = is_space db c"
| "item_matches db (Lit a) c = (c = ord a)"
| "item_matches db (Range a b) c = (ord a \<le> c \<and> c \<le> ord b)"

definition in_cset :: "unicode_db \<Rightarrow> cset \<Rightarrow> pychar \<Rightarrow> bool" where
  "in_cset db cs c = list_ex (\<lambda>i. item_matches db i c) cs"

text \<open>\<open>re.sub(r'[...]', '', s)\<close>: every character of the set is deleted.\<close>

definition re_sub_delete :: "unicode_db \<Rightarrow> cset \<Rightarrow> pystr \<Rightarrow> pystr" where
  "re_sub_delete db cs s = filter (\<lambda>c. \<not> in_cset db cs c) s"

text \<open>
  A pattern is a sequence of items: the anchors \<open>^\<close>, \<open>$\<close> and \<open>\b\<close>, one
  character of a set, or a set repeated exactly \<open>n\<close> times (\<open>{n}\<close>). No pattern of
  the program has an alternative or an open repetition, so matching at a position never
  backtracks: it gives the end of the match or nothing.
\<close>

datatype re_item = Bol | Eol | WordB | One cset | Rep cset nat

type_synonym pattern = "re_item list"

fun match_rep :: "unicode_db \<Rightarrow> cset \<Rightarrow> nat \<Rightarrow> pystr \<Rightarrow> nat \<Rightarrow> nat option" where
  "match_rep db cs 0 s pos = Some pos"
| "match_rep db cs (Suc n) s pos =
     (if pos < length s \<and> in_cset db cs (s ! pos) then match_rep db cs n s (Suc pos)
      else None)"

definition word_at :: "unicode_db \<Rightarrow> pystr \<Rightarrow> nat \<Rightarrow> bool" where
  "word_at db s pos = (pos < length s \<and> is_word db (s ! pos))"

text \<open>\<open>\b\<close>: exactly one of the characters before and at the position is a word character.\<close>

definition boundary :: "unicode_db \<Rightarrow> pystr \<Rightarrow> nat \<Rightarrow> bool" where
  "boundary db s pos = (word_at db s pos \<noteq> (0 < pos \<and> word_at db s (pos - 1)))"

text \<open>\<open>$\<close> without \<open>re.MULTILINE\<close>: the end of the string, or just before a final newline.\<close>

definition at_end :: "pystr \<Rightarrow> nat \<Rightarrow> bool" where
  "at_end s pos = (pos = length s \<or> (Suc pos = length s \<and> s ! pos = 10))"

fun match_here :: "unicode_db \<Rightarrow> pattern \<Rightarrow> pystr \<Rightarrow> nat \<Rightarrow> nat option" where
  "match_here db [] s pos = Some pos"
| "match_here db (Bol # r) s pos = (if pos = 0 then match_here db r s pos else None)"
| "match_here db (Eol # r) s pos = (if at_end s pos then match_here db r s pos else None)"
| "match_here db (WordB # r) s pos =
     (if boundary db s pos then match_here db r s pos else None)"
| "match_here db (One cs # r) s pos =
     (if pos < length s \<and> in_cset db cs (s ! pos) then match_here db r s (Suc pos)
      else None)"
| "match_here db (Rep cs n # r) s pos =
     (case match_rep db cs n s pos of None \<Rightarrow> None | Some p \<Rightarrow> match_here db r s p)"

text \<open>A match object: \<open>m.start()\<close> and \<open>m.end()\<close>; \<open>m.group()\<close> is the slice between them.\<close>

type_synonym rmatch = "nat \<times> nat"

definition group :: "pystr \<Rightarrow> rmatch \<Rightarrow> pystr" where
  "group s m = take (snd m - fst m) (drop (fst m) s)"

text \<open>\<open>re.match\<close> tries the pattern at position 0 only.\<close>

definition re_match :: "unicode_db \<Rightarrow> pattern \<Rightarrow> pystr \<Rightarrow> rmatch option" where
  "re_match db r s = map_option (\<lambda>e. (0, e)) (match_here db r s 0)"

text \<open>
  \<open>re.finditer\<close>: the leftmost match from the current position, then on from its end.
  After a match that consumed nothing the search moves one character on (the patterns of
  the program all consume nine characters).
\<close>

function finditer_from :: "unicode_db \<Rightarrow> pattern \<Rightarrow> pystr \<Rightarrow> nat \<Rightarrow> rmatch list" where
  "finditer_from db r s pos =
     (if length s < pos then []
      else case match_here db r s pos of
             None \<Rightarrow> finditer_from db r s (Suc pos)
           | Some e \<Rightarrow> (pos, e) # finditer_from db r s (if pos < e then e else Suc pos))"
  by pat_completeness auto
termination
  by (relation "measure (\<lambda>(db, r, s, pos). Suc (length s) - pos)") auto

declare finditer_from.simps [simp del]

definition finditer :: "unicode_db \<Rightarrow> pattern \<Rightarrow> pystr \<Rightarrow> rmatch list" where
  "finditer db r s = finditer_from db r s 0"

section \<open>Indexing, slicing, \<open>int\<close> and exceptions\<close>

datatype exn = IndexError | ValueError | KeyError

text \<open>\<open>xs[i]\<close>: a negative index counts from the end; out of range raises.\<close>

definition py_index :: "'a list \<Rightarrow> int \<Rightarrow> exn + 'a" where
  "py_index xs i =
     (let n = int (length xs); j = (if i < 0 then i + n else i)
      in if j < 0 \<or> n \<le> j then Inl IndexError else Inr (xs ! nat j))"

text \<open>\<open>xs[lo:hi]\<close>: both bounds are counted from the end when negative, then clipped.\<close>

definition clip :: "nat \<Rightarrow> int \<Rightarrow> nat" where
  "clip n i = (if i < 0 then nat (max 0 (i + int n)) else min n (nat i))"

definition py_slice :: "'a list \<Rightarrow> int \<Rightarrow> int \<Rightarrow> 'a list" where
  "py_slice xs lo hi =
     (let a = clip (length xs) lo; b = clip (length xs) hi in take (b - a) (drop a xs))"

text \<open>
  \<open>int(s)\<close> on a string of decimal digits (any Unicode decimal digit counts, as for
  \<open>\d\<close>); the empty string and a string with another character raise \<open>ValueError\<close>.
  Python's \<open>int\<close> also accepts a sign, surrounding white space and single underscores
  between digits, where the model gives \<open>ValueError\<close>. The program calls \<open>int\<close> only on
  8 characters matched by \<open>\d\<close>, possibly followed by one letter A to Z, and on those
  strings the model and Python agree.
\<close>

fun dec_value :: "unicode_db \<Rightarrow> nat \<Rightarrow> pystr \<Rightarrow> nat option" where
  "dec_value db acc [] = Some acc"
| "dec_value db acc (c # cs) =
     (case to_decimal db c of None \<Rightarrow> None | Some d \<Rightarrow> dec_value db (10 * acc + d) cs)"

definition py_int :: "unicode_db \<Rightarrow> pystr \<Rightarrow> exn + int" where
  "py_int db s =
     (if s = [] then Inl ValueError
      else case dec_value db 0 s of None \<Rightarrow> Inl ValueError | Some n \<Rightarrow> Inr (int n))"

text \<open>\<open>d[k]\<close> on a dictionary.\<close>

definition py_getitem :: "('k \<rightharpoonup> 'v) \<Rightarrow> 'k \<Rightarrow> exn + 'v" where
  "py_getitem d k = (case d k of None \<Rightarrow> Inl KeyError | Some v \<Rightarrow> Inr v)"

text \<open>
  \<open>try: body  except (E1, E2): return dflt\<close>. An exception outside the list leaves the
  function.
\<close>

definition try_except :: "exn + 'a \<Rightarrow> exn list \<Rightarrow> 'a \<Rightarrow> exn + 'a" where
  "try_except body handled dflt =
     (case body of
        Inl e \<Rightarrow> (if e \<in> set handled then Inr dflt else Inl e)
      | Inr v \<Rightarrow> Inr v)"

section \<open>DocumentValidator\<close>

definition clean_document :: "unicode_db \<Rightarrow> pystr \<Rightarrow> pystr" where
  "clean_document db doc = upper db (re_sub_delete db [Esc_s, Lit CHR ''.'', Lit CHR ''-''] doc)"

definition LETRAS_VALIDACION :: pystr where
  "LETRAS_VALIDACION = str ''TRWAGMYFPDXBNJZSQVHLCKET''"

definition PATRON_DNI :: pattern where
  "PATRON_DNI = [WordB, Rep [Esc_d] 8, One [Range CHR ''A'' CHR ''Z''], WordB]"

definition PATRON_NIE :: pattern where
  "PATRON_NIE =
     [WordB, One [Lit CHR ''X'', Lit CHR ''Y'', Lit CHR ''Z''], Rep [Esc_d] 7,
      One [Range CHR ''A'' CHR ''Z''], WordB]"

definition NIF_first :: cset where
  "NIF_first =
     [Range CHR ''A'' CHR ''H'', Lit CHR ''J'', Lit CHR ''N'', Range CHR ''P'' CHR ''S'',
      Lit CHR ''U'', Lit CHR ''V'', Lit CHR ''W'']"

definition PATRON_NIF :: pattern where
  "PATRON_NIF =
     [WordB, One NIF_first, Rep [Esc_d] 7,
      One [Range CHR ''0'' CHR ''9'', Range CHR ''A'' CHR ''Z''], WordB]"

definition validate_dni :: "unicode_db \<Rightarrow> pystr \<Rightarrow> exn + bool" where
  "validate_dni db dni0 =
     (let dni = clean_document db dni0 in
      try_except
        (if re_match db [Bol, Rep [Esc_d] 8, One [Range CHR ''A'' CHR ''Z''], Eol] dni = None
         then Inr False
         else
           let numbers = py_slice dni 0 (- 1) in
           case py_index dni (- 1) of Inl e \<Rightarrow> Inl e | Inr letter \<Rightarrow>
           case py_int db numbers of Inl e \<Rightarrow> Inl e | Inr n \<Rightarrow>
           case py_index LETRAS_VALIDACION (n mod 23) of Inl e \<Rightarrow> Inl e | Inr l \<Rightarrow>
           Inr (letter = l))
        [IndexError, ValueError] False)"

definition prefix :: "pychar \<rightharpoonup> pystr" where
  "prefix = [ord CHR ''X'' \<mapsto> str ''0'', ord CHR ''Y'' \<mapsto> str ''1'', ord CHR ''Z'' \<mapsto> str ''2'']"

definition validate_nie :: "unicode_db \<Rightarrow> pystr \<Rightarrow> exn + bool" where
  "validate_nie db nie0 =
     (let nie = clean_document db nie0 in
      try_except
        (if re_match db
              [Bol, One [Lit CHR ''X'', Lit CHR ''Y'', Lit CHR ''Z''], Rep [Esc_d] 7,
               One [Range CHR ''A'' CHR ''Z''], Eol] nie = None
         then Inr False
         else
           case py_index nie 0 of Inl e \<Rightarrow> Inl e | Inr first \<Rightarrow>
           case py_getitem prefix first of Inl e \<Rightarrow> Inl e | Inr p \<Rightarrow>
           let numbers = p @ py_slice nie 1 (- 1) in
           case py_index nie (- 1) of Inl e \<Rightarrow> Inl e | Inr letter \<Rightarrow>
           case py_int db numbers of Inl e \<Rightarrow> Inl e | Inr n \<Rightarrow>
           case py_index LETRAS_VALIDACION (n mod 23) of Inl e \<Rightarrow> Inl e | Inr l \<Rightarrow>
           Inr (letter = l))
        [IndexError, ValueError, KeyError] False)"

definition validate_nif :: "unicode_db \<Rightarrow> pystr \<Rightarrow> exn + bool" where
  "validate_nif db nif0 =
     (let nif = clean_document db nif0 in
      Inr (re_match db
             [Bol, One NIF_first, Rep [Esc_d] 7,
              One [Range CHR ''0'' CHR ''9'', Range CHR ''A'' CHR ''Z''], Eol] nif \<noteq> None))"

text \<open>
  The counters \<open>self.stats\<close> (Python integers are unbounded) and one entry of the
  result list of \<open>process_pdf\<close>. The three values the source gives \<open>tipo\<close> are the
  constructors of a datatype.
\<close>

record stats =
  archivos_procesados :: int
  dni_validos :: int
  nie_validos :: int
  nif_validos :: int
  docs_invalidos :: int

definition init_stats :: stats where
  "init_stats = \<lparr> archivos_procesados = 0, dni_validos = 0, nie_validos = 0,
                   nif_validos = 0, docs_invalidos = 0 \<rparr>"

datatype tipo = DNI | NIE | NIF

record resultado =
  tipo :: tipo
  documento :: pystr
  documento_limpio :: pystr
  valido :: bool

text \<open>What the loops of \<open>process_pdf\<close> change: the local list and the counters.\<close>

record pstate =
  resultados :: "resultado list"
  st :: stats

text \<open>
  A \<open>for\<close> loop whose body may raise: the body returns the state it reached, and the
  exception if it raised one, which ends the loop.
\<close>

fun for_each :: "('a \<Rightarrow> 's \<Rightarrow> exn option \<times> 's) \<Rightarrow> 'a list \<Rightarrow> 's \<Rightarrow> exn option \<times> 's" where
  "for_each body [] s = (None, s)"
| "for_each body (x # xs) s =
     (case body x s of
        (Some e, s') \<Rightarrow> (Some e, s')
      | (None, s') \<Rightarrow> for_each body xs s')"

text \<open>The body of \<open>for match in coincidencias\<close>.\<close>

definition process_match ::
  "unicode_db \<Rightarrow> pystr \<Rightarrow> tipo \<Rightarrow> rmatch \<Rightarrow> pstate \<Rightarrow> exn option \<times> pstate" where
  "process_match db texto t m s =
     (let doc = group texto m;
          doc_limpio = clean_document db doc
      in case (case t of
                 DNI \<Rightarrow> validate_dni db doc_limpio
               | NIE \<Rightarrow> validate_nie db doc_limpio
               | NIF \<Rightarrow> validate_nif db doc_limpio) of
           Inl e \<Rightarrow> (Some e, s)
         | Inr es_valido \<Rightarrow>
             let s1 = (if es_valido
                       then (case t of
                               DNI \<Rightarrow> (st s)\<lparr>dni_validos := dni_validos (st s) + 1\<rparr>
                             | NIE \<Rightarrow> (st s)\<lparr>nie_validos := nie_validos (st s) + 1\<rparr>
                             | NIF \<Rightarrow> (st s)\<lparr>nif_validos := nif_validos (st s) + 1\<rparr>)
                       else st s);
                 s2 = (if \<not> es_valido then s1\<lparr>docs_invalidos := docs_invalidos s1 + 1\<rparr>
                       else s1)
             in (None,
                 \<lparr> resultados = resultados s @
                     [\<lparr> tipo = t, documento = doc, documento_limpio = doc_limpio,
                        valido = es_valido \<rparr>],
                   st = s2 \<rparr>))"

text \<open>
  \<open>process_pdf\<close> from the point where \<open>texto\<close> has been extracted: the search for the
  three patterns in turn, the count of the file, and the \<open>except Exception\<close> clause,
  which returns the list as far as it got. The download and the extraction of the text
  are outside the model; so is what is printed.
\<close>

definition process_pdf :: "unicode_db \<Rightarrow> pystr \<Rightarrow> stats \<Rightarrow> resultado list \<times> stats" where
  "process_pdf db texto stats0 =
     (case for_each
             (\<lambda>(patron, t) s.
                 let coincidencias = finditer db patron texto
                 in for_each (process_match db texto t) coincidencias s)
             [(PATRON_DNI, DNI), (PATRON_NIE, NIE), (PATRON_NIF, NIF)]
             \<lparr> resultados = [], st = stats0 \<rparr> of
        (None, s) \<Rightarrow>
          (resultados s, (st s)\<lparr>archivos_procesados := archivos_procesados (st s) + 1\<rparr>)
      | (Some e, s) \<Rightarrow> (resultados s, st s))"

text \<open>
  What the idempotence of \<open>clean_document\<close> needs of the database: the upper-case
  mapping of a character gives characters that are their own upper case, and it gives
  white space, a period or a hyphen only for a character that is one itself. The ASCII
  rows have both properties by their definition above, so this constrains the rows from
  128 on; the table of CPython 3.11 (Unicode 14.0) satisfies it at every code point.
\<close>

definition removed :: "unicode_db \<Rightarrow> pychar \<Rightarrow> bool" where
  "removed db c = in_cset db [Esc_s, Lit CHR ''.'', Lit CHR ''-''] c"

definition upper_stable :: "unicode_db \<Rightarrow> bool" where
  "upper_stable db =
     (\<forall>c d. d \<in> set (upper_char db c) \<longrightarrow>
        upper_char db d = [d] \<and> (removed db d \<longrightarrow> removed db c))"

section \<open>The notions of the specification\<close>

text \<open>The decimal representation of \<open>n\<close>, padded with zeros to \<open>w\<close> digits.\<close>

fun zfill :: "nat \<Rightarrow> nat \<Rightarrow> pystr" where
  "zfill 0 n = []"
| "zfill (Suc w) n = zfill w (n div 10) @ [48 + n mod 10]"

text \<open>The number a string of decimal digits denotes, read from its last digit.\<close>

fun number_rev :: "unicode_db \<Rightarrow> pystr \<Rightarrow> nat" where
  "number_rev db [] = 0"
| "number_rev db (c # cs) =
     (case to_decimal db c of None \<Rightarrow> 0 | Some d \<Rightarrow> d) + 10 * number_rev db cs"

definition number_of :: "unicode_db \<Rightarrow> pystr \<Rightarrow> nat" where
  "number_of db s = number_rev db (rev s)"

definition is_digit :: "unicode_db \<Rightarrow> pychar \<Rightarrow> bool" where
  "is_digit db c = (to_decimal db c \<noteq> None)"

definition is_AZ :: "pychar \<Rightarrow> bool" where
  "is_AZ c = (65 \<le> c \<and> c \<le> 90)"

text \<open>Exactly 8 decimal digits and one upper-case letter.\<close>

definition dni_shape :: "unicode_db \<Rightarrow> pystr \<Rightarrow> bool" where
  "dni_shape db t =
     (length t = 9 \<and> list_all (is_digit db) (take 8 t) \<and> is_AZ (t ! 8))"

text \<open>One of X, Y, Z, then 7 decimal digits, then one upper-case letter.\<close>

definition nie_shape :: "unicode_db \<Rightarrow> pystr \<Rightarrow> bool" where
  "nie_shape db t =
     (length t = 9 \<and> t ! 0 \<in> set (str ''XYZ'') \<and> list_all (is_digit db) (take 7 (drop 1 t))
      \<and> is_AZ (t ! 8))"

text \<open>The prefix digit for the leading letter (X is 0, Y is 1, Z is 2) before the 7 digits.\<close>

definition nie_digits :: "pystr \<Rightarrow> pystr" where
  "nie_digits t =
     (if t ! 0 = ord CHR ''X'' then ord CHR ''0''
      else if t ! 0 = ord CHR ''Y'' then ord CHR ''1''
      else ord CHR ''2'') # take 7 (drop 1 t)"

text \<open>
  The shapes as the claims word them, with "decimal digit" read as one of the ten
  characters 0 to 9: for the NIE, one of X, Y, Z, then 7 digits, then one upper-case
  letter; for the NIF, one letter of A B C D E F G H J N P Q R S U V W, then 7 digits,
  then a digit or an upper-case letter.
\<close>

definition is_09 :: "pychar \<Rightarrow> bool" where
  "is_09 c = (48 \<le> c \<and> c \<le> 57)"

definition nie_shape_09 :: "pystr \<Rightarrow> bool" where
  "nie_shape_09 t =
     (length t = 9 \<and> t ! 0 \<in> set (str ''XYZ'') \<and> list_all is_09 (take 7 (drop 1 t))
      \<and> is_AZ (t ! 8))"

definition nif_shape_09 :: "pystr \<Rightarrow> bool" where
  "nif_shape_09 t =
     (length t = 9 \<and> t ! 0 \<in> set (str ''ABCDEFGHJNPQRSUVW'')
      \<and> list_all is_09 (take 7 (drop 1 t))
      \<and> (is_09 (t ! 8) \<or> is_AZ (t ! 8)))"

text \<open>
  The NIF shape with "decimal digit" read, in both places, as any decimal digit of the
  Unicode table.
\<close>

definition nif_shape_unicode :: "unicode_db \<Rightarrow> pystr \<Rightarrow> bool" where
  "nif_shape_unicode db t =
     (length t = 9 \<and> t ! 0 \<in> set (str ''ABCDEFGHJNPQRSUVW'')
      \<and> list_all (is_digit db) (take 7 (drop 1 t))
      \<and> (is_digit db (t ! 8) \<or> is_AZ (t ! 8)))"

text \<open>
  The NIF shape of the amended claim C4, which reads the two places differently: the 7
  characters after the letter are decimal digits of the Unicode table, the last character
  is one of 0 to 9 or an upper-case letter A to Z.
\<close>

definition nif_amended_shape :: "unicode_db \<Rightarrow> pystr \<Rightarrow> bool" where
  "nif_amended_shape db t =
     (length t = 9 \<and> t ! 0 \<in> set (str ''ABCDEFGHJNPQRSUVW'')
      \<and> list_all (is_digit db) (take 7 (drop 1 t))
      \<and> (is_09 (t ! 8) \<or> is_AZ (t ! 8)))"

text \<open>
  \<open>ms\<close> lists the non-overlapping matches of a pattern in a text from left to right:
  the entries are matches, each starts after the one before it and not before its end,
  and every position where the pattern matches is the start of an entry or lies strictly
  inside one.
\<close>

definition leftmost_matches :: "unicode_db \<Rightarrow> pattern \<Rightarrow> pystr \<Rightarrow> rmatch list \<Rightarrow> bool" where
  "leftmost_matches db r s ms =
     (sorted_wrt (\<lambda>a b. fst a < fst b \<and> snd a \<le> fst b) ms
      \<and> (\<forall>m\<in>set ms. match_here db r s (fst m) = Some (snd m))
      \<and> (\<forall>p\<in>{0..length s}. \<forall>e. match_here db r s p = Some e \<longrightarrow>
            (p, e) \<in> set ms \<or> (\<exists>m\<in>set ms. fst m < p \<and> p < snd m)))"

text \<open>A digit 0 to 9 or an upper-case letter A to Z: what cleaning leaves as it is.\<close>

definition plain :: "pychar \<Rightarrow> bool" where
  "plain c = ((48 \<le> c \<and> c \<le> 57) \<or> is_AZ c)"

text \<open>
  The result record of one match: its type, the matched text, the cleaned text, and
  whether the validator of that type returns \<open>True\<close> on the cleaned text.
\<close>

definition valid_flag :: "unicode_db \<Rightarrow> tipo \<Rightarrow> pystr \<Rightarrow> bool" where
  "valid_flag db t doc =
     ((case t of DNI \<Rightarrow> validate_dni db doc | NIE \<Rightarrow> validate_nie db doc
       | NIF \<Rightarrow> validate_nif db doc) = Inr True)"

definition resultado_of :: "unicode_db \<Rightarrow> pystr \<Rightarrow> tipo \<Rightarrow> rmatch \<Rightarrow> resultado" where
  "resultado_of db texto t m =
     \<lparr> tipo = t, documento = group texto m,
       documento_limpio = clean_document db (group texto m),
       valido = valid_flag db t (clean_document db (group texto m)) \<rparr>"

text \<open>The counter a result adds to: the one of its type when valid, else the invalid one.\<close>

definition tally :: "resultado \<Rightarrow> stats \<Rightarrow> stats" where
  "tally r s =
     (if valido r
      then (case tipo r of
              DNI \<Rightarrow> s\<lparr>dni_validos := dni_validos s + 1\<rparr>
            | NIE \<Rightarrow> s\<lparr>nie_validos := nie_validos s + 1\<rparr>
            | NIF \<Rightarrow> s\<lparr>nif_validos := nif_validos s + 1\<rparr>)
      else s\<lparr>docs_invalidos := docs_invalidos s + 1\<rparr>)"

text \<open>The three blocks of results, in the order DNI, NIE, NIF.\<close>

definition scan_results :: "unicode_db \<Rightarrow> pystr \<Rightarrow> resultado list" where
  "scan_results db texto =
     map (resultado_of db texto DNI) (finditer db PATRON_DNI texto)
     @ map (resultado_of db texto NIE) (finditer db PATRON_NIE texto)
     @ map (resultado_of db texto NIF) (finditer db PATRON_NIF texto)"

text \<open>How many elements of a list satisfy a predicate.\<close>

definition count_where :: "('a \<Rightarrow> bool) \<Rightarrow> 'a list \<Rightarrow> int" where
  "count_where P xs = int (length (filter P xs))"

section \<open>Properties\<close>

lemma removed_iff: "removed db c = (is_space db c \<or> c = 46 \<or> c = 45)"
  by (simp add: removed_def in_cset_def ord_def)

lemma upper_fixed:
  "\<forall>d\<in>set s. upper_char db d = [d] \<Longrightarrow> upper db s = s"
  by (induction s) (simp_all add: upper_def)

lemma upper_idem:
  assumes "upper_stable db"
  shows "upper db (upper db s) = upper db s"
proof (rule upper_fixed, rule ballI)
  fix d assume "d \<in> set (upper db s)"
  then obtain c where "d \<in> set (upper_char db c)"
    by (auto simp: upper_def)
  with assms show "upper_char db d = [d]"
    by (simp add: upper_stable_def)
qed

lemma clean_no_removed:
  assumes "upper_stable db" and "d \<in> set (clean_document db s)"
  shows "\<not> removed db d"
proof
  assume r: "removed db d"
  from assms(2) obtain c where c: "c \<in> set s" "\<not> removed db c" "d \<in> set (upper_char db c)"
    by (auto simp: clean_document_def upper_def re_sub_delete_def removed_def)
  with assms(1) r have "removed db c"
    by (simp add: upper_stable_def)
  with c show False by simp
qed

lemma delete_clean:
  assumes "upper_stable db"
  shows "re_sub_delete db [Esc_s, Lit CHR ''.'', Lit CHR ''-''] (clean_document db s)
           = clean_document db s"
proof -
  have "\<forall>d\<in>set (clean_document db s). \<not> removed db d"
    using clean_no_removed [OF assms] by blast
  then show ?thesis
    by (simp add: re_sub_delete_def removed_def)
qed

lemma clean_idem:
  assumes "upper_stable db"
  shows "clean_document db (clean_document db s) = clean_document db s"
proof -
  have "clean_document db (clean_document db s) = upper db (clean_document db s)"
    by (simp add: clean_document_def [of db "clean_document db s"] delete_clean [OF assms])
  also have "\<dots> = clean_document db s"
    by (simp add: clean_document_def [of db s] upper_idem [OF assms])
  finally show ?thesis .
qed

lemma latin1_stable: "upper_stable latin1_db"
  unfolding upper_stable_def
proof (intro allI impI)
  fix c d :: nat
  assume d: "d \<in> set (upper_char latin1_db c)"
  show "upper_char latin1_db d = [d] \<and> (removed latin1_db d \<longrightarrow> removed latin1_db c)"
    using d
    by (auto simp: upper_char_def latin1_db_def latin1_upper_def removed_iff is_space_def
             split: if_splits)
qed

subsection \<open>Matching and digit strings\<close>

lemma ord_simps [simp]: "ord c = of_char c" by (simp add: ord_def)

lemma match_rep_iff:
  "match_rep db cs n s pos =
     (if n = 0 then Some pos
      else if pos + n \<le> length s \<and> (\<forall>i<n. in_cset db cs (s ! (pos + i)))
      then Some (pos + n) else None)"
proof (induction n arbitrary: pos)
  case 0
  then show ?case by simp
next
  case (Suc n)
  show ?case
  proof (cases "pos < length s \<and> in_cset db cs (s ! pos)")
    case True
    then show ?thesis by (auto simp: Suc.IH All_less_Suc2)
  next
    case False
    then show ?thesis by (auto simp: All_less_Suc2)
  qed
qed

lemma list_all_take_iff:
  "n \<le> length t \<Longrightarrow> list_all P (take n t) = (\<forall>i<n. P (t ! i))"
  by (simp add: list_all_length)

lemma list_all_take_drop_iff:
  "k + n \<le> length t \<Longrightarrow> list_all P (take n (drop k t)) = (\<forall>i<n. P (t ! (k + i)))"
  by (simp add: list_all_length)

lemma number_rev_append:
  "number_rev db (xs @ ys) = number_rev db xs + 10 ^ length xs * number_rev db ys"
  by (induction xs) (simp_all add: algebra_simps)

lemma dec_value_eq:
  "dec_value db acc s =
     (if list_all (is_digit db) s then Some (acc * 10 ^ length s + number_of db s) else None)"
proof (induction s arbitrary: acc)
  case Nil
  then show ?case by (simp add: number_of_def)
next
  case (Cons c cs)
  show ?case
    by (auto simp: Cons is_digit_def number_of_def number_rev_append algebra_simps
             split: option.splits)
qed

lemma length_zfill [simp]: "length (zfill w n) = w"
  by (induction w arbitrary: n) simp_all

lemma digits_zfill: "list_all (is_digit db) (zfill w n)"
  by (induction w arbitrary: n) (simp_all add: is_digit_def to_decimal_def)

lemma number_of_zfill: "number_of db (zfill w n) = n mod 10 ^ w"
proof (induction w arbitrary: n)
  case 0
  then show ?case by (simp add: number_of_def)
next
  case (Suc w)
  have "number_of db (zfill (Suc w) n) = n mod 10 + 10 * number_of db (zfill w (n div 10))"
    by (simp add: number_of_def to_decimal_def)
  also have "\<dots> = n mod 10 + 10 * (n div 10 mod 10 ^ w)"
    by (simp add: Suc)
  also have "\<dots> = n mod 10 ^ Suc w"
    by (simp add: mod_mult2_eq)
  finally show ?case .
qed

lemma in_cset_d [simp]: "in_cset db [Esc_d] c = is_digit db c"
  by (simp add: in_cset_def is_digit_def)

lemma in_cset_AZ [simp]: "in_cset db [Range CHR ''A'' CHR ''Z''] c = is_AZ c"
  by (simp add: in_cset_def is_AZ_def)

lemma in_cset_XYZ [simp]:
  "in_cset db [Lit CHR ''X'', Lit CHR ''Y'', Lit CHR ''Z''] c = (c \<in> set (str ''XYZ''))"
  by (auto simp: in_cset_def str_def)

lemma in_cset_NIF_first [simp]:
  "in_cset db NIF_first c = (c \<in> set (str ''ABCDEFGHJNPQRSUVW''))"
  by (simp add: in_cset_def NIF_first_def str_def) arith

lemma in_cset_09AZ [simp]:
  "in_cset db [Range CHR ''0'' CHR ''9'', Range CHR ''A'' CHR ''Z''] c
     = ((48 \<le> c \<and> c \<le> 57) \<or> is_AZ c)"
  by (simp add: in_cset_def is_AZ_def)

lemma re_dni_iff:
  "(re_match db [Bol, Rep [Esc_d] 8, One [Range CHR ''A'' CHR ''Z''], Eol] t \<noteq> None)
     = (8 < length t \<and> (\<forall>i<8. is_digit db (t ! i)) \<and> is_AZ (t ! 8) \<and> at_end t 9)"
  by (auto simp: re_match_def match_rep_iff)

lemma re_nie_iff:
  "(re_match db [Bol, One [Lit CHR ''X'', Lit CHR ''Y'', Lit CHR ''Z''], Rep [Esc_d] 7,
                 One [Range CHR ''A'' CHR ''Z''], Eol] t \<noteq> None)
     = (8 < length t \<and> t ! 0 \<in> set (str ''XYZ'') \<and> (\<forall>i<7. is_digit db (t ! (1 + i)))
        \<and> is_AZ (t ! 8) \<and> at_end t 9)"
  by (auto simp: re_match_def match_rep_iff)

lemma re_nif_iff:
  "(re_match db [Bol, One NIF_first, Rep [Esc_d] 7,
                 One [Range CHR ''0'' CHR ''9'', Range CHR ''A'' CHR ''Z''], Eol] t \<noteq> None)
     = (8 < length t \<and> t ! 0 \<in> set (str ''ABCDEFGHJNPQRSUVW'')
        \<and> (\<forall>i<7. is_digit db (t ! (1 + i)))
        \<and> ((48 \<le> t ! 8 \<and> t ! 8 \<le> 57) \<or> is_AZ (t ! 8)) \<and> at_end t 9)"
  by (auto simp: re_match_def match_rep_iff)

subsection \<open>Indexing, slicing and the check letter\<close>

lemma clip_minus1: "clip n (- 1) = n - 1"
  by (simp add: clip_def)

lemma clip_0: "clip n 0 = 0"
  by (simp add: clip_def)

lemma clip_1: "clip n 1 = min n 1"
  by (simp add: clip_def)

lemma py_slice_butlast: "py_slice t 0 (- 1) = take (length t - 1) t"
  by (simp add: py_slice_def clip_minus1 clip_0)

lemma py_slice_inner: "py_slice t 1 (- 1) = take (length t - 2) (drop 1 t)"
proof (cases "t = []")
  case True
  then show ?thesis by (simp add: py_slice_def)
next
  case False
  then have "min (length t) 1 = 1" by (cases t) simp_all
  then show ?thesis
    by (simp add: py_slice_def clip_minus1 clip_1 del: One_nat_def)
qed

lemma py_index_last: "t \<noteq> [] \<Longrightarrow> py_index t (- 1) = Inr (t ! (length t - 1))"
  by (auto simp: py_index_def Let_def nat_diff_distrib')

lemma py_index_first: "t \<noteq> [] \<Longrightarrow> py_index t 0 = Inr (t ! 0)"
  by (simp add: py_index_def Let_def)

lemma py_index_nat: "k < length t \<Longrightarrow> py_index t (int k) = Inr (t ! k)"
  by (simp add: py_index_def Let_def)

lemma py_int_eq:
  "py_int db u =
     (if u \<noteq> [] \<and> list_all (is_digit db) u then Inr (int (number_of db u))
      else Inl ValueError)"
  by (simp add: py_int_def dec_value_eq)

lemma length_LETRAS: "length LETRAS_VALIDACION = 24"
  by (simp add: LETRAS_VALIDACION_def str_def)

lemma letra_lookup:
  "py_index LETRAS_VALIDACION (int n mod 23) = Inr (LETRAS_VALIDACION ! (n mod 23))"
proof -
  have "int n mod 23 = int (n mod 23)" by (simp add: zmod_int)
  moreover have "n mod 23 < length LETRAS_VALIDACION" by (simp add: length_LETRAS)
  ultimately show ?thesis by (simp only: py_index_nat)
qed

lemma AZ_not_digit: "is_AZ c \<Longrightarrow> \<not> is_digit db c"
  by (simp add: is_AZ_def is_digit_def to_decimal_def)


lemma dni_shape_alt:
  "dni_shape db t = (length t = 9 \<and> (\<forall>i<8. is_digit db (t ! i)) \<and> is_AZ (t ! 8))"
  by (auto simp: dni_shape_def list_all_length)

lemma nie_shape_alt:
  "nie_shape db t =
     (length t = 9 \<and> t ! 0 \<in> set (str ''XYZ'') \<and> (\<forall>i<7. is_digit db (t ! (1 + i)))
      \<and> is_AZ (t ! 8))"
  by (auto simp: nie_shape_def list_all_length)

lemma nif_amended_shape_alt:
  "nif_amended_shape db t =
     (length t = 9 \<and> t ! 0 \<in> set (str ''ABCDEFGHJNPQRSUVW'')
      \<and> (\<forall>i<7. is_digit db (t ! (1 + i)))
      \<and> ((48 \<le> t ! 8 \<and> t ! 8 \<le> 57) \<or> is_AZ (t ! 8)))"
  by (auto simp: nif_amended_shape_def is_09_def list_all_length)

subsection \<open>What the validators compute\<close>

lemma validate_dni_eq:
  "validate_dni db s =
     Inr (dni_shape db (clean_document db s)
          \<and> clean_document db s ! 8
              = LETRAS_VALIDACION ! (number_of db (take 8 (clean_document db s)) mod 23))"
proof -
  let ?t = "clean_document db s"
  show ?thesis
  proof (cases "re_match db [Bol, Rep [Esc_d] 8, One [Range CHR ''A'' CHR ''Z''], Eol] ?t = None")
    case True
    then have "\<not> dni_shape db ?t"
      using re_dni_iff [of db ?t] by (auto simp: dni_shape_alt at_end_def)
    with True show ?thesis
      by (simp add: validate_dni_def Let_def try_except_def)
  next
    case False
    then have m: "8 < length ?t" "\<forall>i<8. is_digit db (?t ! i)" "is_AZ (?t ! 8)" "at_end ?t 9"
      using re_dni_iff [of db ?t] by auto
    have ne: "?t \<noteq> []" using m(1) by auto
    from m(4) consider (exact) "length ?t = 9" | (newline) "length ?t = 10" "?t ! 9 = 10"
      by (auto simp: at_end_def)
    then show ?thesis
    proof cases
      case exact
      with m have sh: "dni_shape db ?t" by (simp add: dni_shape_alt)
      have dg: "list_all (is_digit db) (take 8 ?t)" using sh by (simp add: dni_shape_def)
      have "take 8 ?t \<noteq> []" using exact by auto
      with dg have pi: "py_int db (take 8 ?t) = Inr (int (number_of db (take 8 ?t)))"
        by (simp add: py_int_eq)
      show ?thesis
        using False sh exact
        by (simp add: validate_dni_def Let_def try_except_def py_slice_butlast
              py_index_last [OF ne] pi letra_lookup del: not_None_eq)
    next
      case newline
      have "\<not> is_digit db (?t ! 8)" using m(3) by (simp add: AZ_not_digit)
      moreover have "?t ! 8 \<in> set (take 9 ?t)"
        using newline by (simp add: in_set_conv_nth) (rule exI [of _ 8], simp)
      ultimately have "\<not> list_all (is_digit db) (take 9 ?t)"
        by (auto simp: list_all_iff)
      then have pi: "py_int db (take 9 ?t) = Inl ValueError"
        by (simp add: py_int_eq)
      have "\<not> dni_shape db ?t" using newline by (simp add: dni_shape_def)
      then show ?thesis
        using False newline
        by (simp add: validate_dni_def Let_def try_except_def py_slice_butlast
              py_index_last [OF ne] pi del: not_None_eq)
    qed
  qed
qed

lemma prefix_lookup:
  "t ! 0 \<in> set (str ''XYZ'') \<Longrightarrow> py_getitem prefix (t ! 0) = Inr [hd (nie_digits t)]"
  by (auto simp: py_getitem_def prefix_def str_def nie_digits_def)

lemma nie_digits_split: "hd (nie_digits t) # take 7 (drop 1 t) = nie_digits t"
  by (simp add: nie_digits_def)

lemma nie_digits_ok:
  "list_all (is_digit db) (take 7 (drop 1 t)) \<Longrightarrow> list_all (is_digit db) (nie_digits t)"
  by (simp add: nie_digits_def is_digit_def to_decimal_def)

lemma validate_nie_eq:
  "validate_nie db s =
     Inr (nie_shape db (clean_document db s)
          \<and> clean_document db s ! 8
              = LETRAS_VALIDACION ! (number_of db (nie_digits (clean_document db s)) mod 23))"
proof -
  let ?t = "clean_document db s"
  show ?thesis
  proof (cases "re_match db
              [Bol, One [Lit CHR ''X'', Lit CHR ''Y'', Lit CHR ''Z''], Rep [Esc_d] 7,
               One [Range CHR ''A'' CHR ''Z''], Eol] ?t = None")
    case True
    then have "\<not> nie_shape db ?t"
      using re_nie_iff [of db ?t] by (auto simp: nie_shape_alt at_end_def)
    with True show ?thesis
      by (simp add: validate_nie_def Let_def try_except_def)
  next
    case False
    then have m: "8 < length ?t" "?t ! 0 \<in> set (str ''XYZ'')"
        "\<forall>i<7. is_digit db (?t ! (1 + i))" "is_AZ (?t ! 8)" "at_end ?t 9"
      using re_nie_iff [of db ?t] by auto
    have ne: "?t \<noteq> []" using m(1) by auto
    note pl = prefix_lookup [OF m(2)]
    from m(5) consider (exact) "length ?t = 9" | (newline) "length ?t = 10" "?t ! 9 = 10"
      by (auto simp: at_end_def)
    then show ?thesis
    proof cases
      case exact
      with m have sh: "nie_shape db ?t" by (simp add: nie_shape_alt)
      then have dg: "list_all (is_digit db) (nie_digits ?t)"
        by (simp add: nie_shape_def nie_digits_ok del: One_nat_def)
      have "nie_digits ?t \<noteq> []" by (simp add: nie_digits_def)
      with dg have pi: "py_int db (nie_digits ?t) = Inr (int (number_of db (nie_digits ?t)))"
        by (simp add: py_int_eq)
      show ?thesis
        using False sh exact
        by (simp add: validate_nie_def Let_def try_except_def py_slice_inner
              py_index_last [OF ne] py_index_first [OF ne] pl nie_digits_split pi letra_lookup
              del: not_None_eq One_nat_def)
    next
      case newline
      let ?num = "hd (nie_digits ?t) # take 8 (drop 1 ?t)"
      have "\<not> is_digit db (?t ! 8)" using m(4) by (simp add: AZ_not_digit)
      moreover have "?t ! 8 \<in> set (take 8 (drop 1 ?t))"
        using newline by (simp add: in_set_conv_nth del: One_nat_def) (rule exI [of _ 7], simp)
      ultimately have "\<not> list_all (is_digit db) ?num"
        by (auto simp: list_all_iff)
      then have pi: "py_int db ?num = Inl ValueError"
        by (simp only: py_int_eq) simp
      have "\<not> nie_shape db ?t" using newline by (simp add: nie_shape_def)
      then show ?thesis
        using False newline
        by (simp add: validate_nie_def Let_def try_except_def py_slice_inner
              py_index_last [OF ne] py_index_first [OF ne] pl pi
              del: not_None_eq One_nat_def)
    qed
  qed
qed

lemma clean_no_newline:
  assumes "upper_stable db" and "clean_document db s \<noteq> []"
  shows "last (clean_document db s) \<noteq> 10"
proof
  assume l: "last (clean_document db s) = 10"
  then have "10 \<in> set (clean_document db s)"
    using last_in_set [OF assms(2)] by simp
  then have "\<not> removed db 10" by (rule clean_no_removed [OF assms(1)])
  then show False by (simp add: removed_iff is_space_def)
qed

lemma validate_nif_eq:
  assumes "upper_stable db"
  shows "validate_nif db s = Inr (nif_amended_shape db (clean_document db s))"
proof -
  let ?t = "clean_document db s"
  have "at_end ?t 9 = (length ?t = 9)"
  proof (cases "length ?t = 10")
    case True
    then have ne: "?t \<noteq> []" by auto
    have "?t ! 9 \<noteq> 10"
      using clean_no_newline [OF assms ne] True by (simp add: last_conv_nth ne)
    with True show ?thesis by (simp add: at_end_def)
  next
    case False
    then show ?thesis by (auto simp: at_end_def)
  qed
  then show ?thesis
    using re_nif_iff [of db ?t]
    by (auto simp: validate_nif_def Let_def nif_amended_shape_alt simp del: not_None_eq)
qed

subsection \<open>Strings that cleaning leaves as they are\<close>

lemma clean_fixed:
  assumes "list_all plain s"
  shows "clean_document db s = s"
proof -
  have a: "\<forall>c\<in>set s. \<not> in_cset db [Esc_s, Lit CHR ''.'', Lit CHR ''-''] c"
    using assms by (auto simp: list_all_iff plain_def is_AZ_def in_cset_def is_space_def)
  have b: "\<forall>c\<in>set s. upper_char db c = [c]"
    using assms by (auto simp: list_all_iff plain_def is_AZ_def upper_char_def)
  from a have "re_sub_delete db [Esc_s, Lit CHR ''.'', Lit CHR ''-''] s = s"
    by (simp add: re_sub_delete_def)
  with b show ?thesis
    by (simp add: clean_document_def upper_fixed)
qed

lemma LETRAS_AZ: "list_all is_AZ LETRAS_VALIDACION"
  by (simp add: LETRAS_VALIDACION_def str_def is_AZ_def)

lemma plain_zfill: "list_all plain (zfill w n)"
proof (induction w arbitrary: n)
  case 0
  then show ?case by simp
next
  case (Suc w)
  have "n mod 10 \<le> 9" by arith
  then have "plain (48 + n mod 10)" by (simp add: plain_def)
  then show ?case by (simp add: Suc)
qed

lemma dni_of_number:
  assumes "n \<le> 99999999" and "is_AZ c"
  shows "validate_dni db (zfill 8 n @ [c]) = Inr (c = LETRAS_VALIDACION ! (n mod 23))"
proof -
  let ?t = "zfill 8 n @ [c]"
  have "list_all plain ?t" using assms(2) by (simp add: plain_zfill) (simp add: plain_def)
  then have cl: "clean_document db ?t = ?t" by (rule clean_fixed)
  have sh: "dni_shape db ?t"
    using assms(2) by (simp add: dni_shape_def digits_zfill nth_append)
  have "number_of db (take 8 ?t) = n mod 10 ^ 8"
    by (simp add: number_of_zfill)
  also have "\<dots> = n" using assms(1) by simp
  finally have nm: "number_of db (take 8 ?t) = n" .
  show ?thesis
    unfolding validate_dni_eq cl using sh nm by (simp add: nth_append)
qed

subsection \<open>The loops of \<open>process_pdf\<close>\<close>

lemma validate_nif_total: "validate_nif db s = Inr (validate_nif db s = Inr True)"
  by (simp add: validate_nif_def Let_def)

lemma validate_total:
  "(case t of DNI \<Rightarrow> validate_dni db doc | NIE \<Rightarrow> validate_nie db doc
    | NIF \<Rightarrow> validate_nif db doc) = Inr (valid_flag db t doc)"
proof (cases t)
  case DNI
  then show ?thesis by (simp add: valid_flag_def validate_dni_eq)
next
  case NIE
  then show ?thesis by (simp add: valid_flag_def validate_nie_eq)
next
  case NIF
  then show ?thesis using validate_nif_total [of db doc] by (simp add: valid_flag_def)
qed

lemma process_match_eq:
  "process_match db texto t m s =
     (None, \<lparr> resultados = resultados s @ [resultado_of db texto t m],
              st = tally (resultado_of db texto t m) (st s) \<rparr>)"
  unfolding process_match_def Let_def validate_total
  by (cases t) (simp_all add: resultado_of_def tally_def)

lemma for_each_matches:
  "for_each (process_match db texto t) ms s =
     (None, \<lparr> resultados = resultados s @ map (resultado_of db texto t) ms,
              st = foldl (\<lambda>a r. tally r a) (st s) (map (resultado_of db texto t) ms) \<rparr>)"
proof (induction ms arbitrary: s)
  case Nil
  then show ?case by simp
next
  case (Cons m ms)
  have "for_each (process_match db texto t) (m # ms) s
          = for_each (process_match db texto t) ms
              \<lparr> resultados = resultados s @ [resultado_of db texto t m],
                st = tally (resultado_of db texto t m) (st s) \<rparr>"
    by (simp add: process_match_eq [of db texto t m s])
  then show ?case by (simp add: Cons)
qed

lemma process_pdf_eq:
  "process_pdf db texto s0 =
     (scan_results db texto,
      (foldl (\<lambda>a r. tally r a) s0 (scan_results db texto))
        \<lparr>archivos_procesados :=
           archivos_procesados (foldl (\<lambda>a r. tally r a) s0 (scan_results db texto)) + 1\<rparr>)"
  by (simp add: process_pdf_def Let_def for_each_matches scan_results_def)

lemma tally_fold:
  "dni_validos (foldl (\<lambda>a r. tally r a) s rs)
     = dni_validos s + count_where (\<lambda>r. tipo r = DNI \<and> valido r) rs"
  "nie_validos (foldl (\<lambda>a r. tally r a) s rs)
     = nie_validos s + count_where (\<lambda>r. tipo r = NIE \<and> valido r) rs"
  "nif_validos (foldl (\<lambda>a r. tally r a) s rs)
     = nif_validos s + count_where (\<lambda>r. tipo r = NIF \<and> valido r) rs"
  "docs_invalidos (foldl (\<lambda>a r. tally r a) s rs)
     = docs_invalidos s + count_where (\<lambda>r. \<not> valido r) rs"
  "archivos_procesados (foldl (\<lambda>a r. tally r a) s rs) = archivos_procesados s"
  by (induction rs arbitrary: s; simp add: tally_def count_where_def split: tipo.splits)+

lemma count_partition:
  "count_where (\<lambda>r. tipo r = DNI \<and> valido r) rs + count_where (\<lambda>r. tipo r = NIE \<and> valido r) rs
   + count_where (\<lambda>r. tipo r = NIF \<and> valido r) rs + count_where (\<lambda>r. \<not> valido r) rs
   = int (length rs)"
proof (induction rs)
  case Nil
  then show ?case by (simp add: count_where_def)
next
  case (Cons r rs)
  then show ?case by (cases "tipo r") (auto simp: count_where_def)
qed

lemma finditer_from_sorted:
  "sorted_wrt (\<lambda>a b. fst a < fst b) (finditer_from db r s pos)
   \<and> (\<forall>m\<in>set (finditer_from db r s pos). pos \<le> fst m)"
proof (induction db r s pos rule: finditer_from.induct)
  case (1 db r s pos)
  show ?case
  proof (cases "length s < pos")
    case True
    then show ?thesis by (subst (1 2) finditer_from.simps) simp
  next
    case False
    show ?thesis
    proof (cases "match_here db r s pos")
      case None
      have eq: "finditer_from db r s pos = finditer_from db r s (Suc pos)"
        using False None by (subst finditer_from.simps) simp
      show ?thesis
        unfolding eq using 1(1) [OF False None] by fastforce
    next
      case (Some e)
      let ?next = "if pos < e then e else Suc pos"
      have eq: "finditer_from db r s pos = (pos, e) # finditer_from db r s ?next"
        using False Some by (subst finditer_from.simps) simp
      have "pos < ?next" by simp
      then show ?thesis
        unfolding eq using 1(2) [OF False Some] by fastforce
    qed
  qed
qed

lemma finditer_sorted: "sorted_wrt (\<lambda>a b. fst a < fst b) (finditer db r s)"
  using finditer_from_sorted [of db r s 0] by (simp add: finditer_def)

subsection \<open>Evaluating a search on a given text\<close>

lemmas re_eval = finditer_def finditer_from.simps PATRON_DNI_def PATRON_NIE_def PATRON_NIF_def
  str_def match_rep_iff boundary_def word_at_def is_word_def is_digit_def to_decimal_def
  is_AZ_def All_less_Suc eval_nat_numeral

lemmas clean_eval = clean_document_def re_sub_delete_def upper_def upper_char_def in_cset_def
  is_space_def

lemma zfill_numeral:
  "zfill (numeral k) n = zfill (pred_numeral k) (n div 10) @ [48 + n mod 10]"
  by (subst numeral_eq_Suc) (simp only: zfill.simps)

lemma zfill_12345678: "zfill 8 12345678 = str ''12345678''"
  by (simp add: zfill_numeral str_def)

section \<open>The claims\<close>

text \<open>
  C1. For every number \<open>n\<close> from 0 to 99999999, \<open>validate_dni\<close> returns \<open>True\<close> on
  the 8 zero-padded decimal digits of \<open>n\<close> followed by the letter of
  \<open>LETRAS_VALIDACION\<close> at index \<open>n mod 23\<close>, and \<open>False\<close> when that last letter is
  replaced by any other character of \<open>LETRAS_VALIDACION\<close>.
\<close>

theorem validate_dni_check_letter:
  assumes "n \<le> 99999999"
  shows "validate_dni db (zfill 8 n @ [LETRAS_VALIDACION ! (n mod 23)]) = Inr True
         \<and> (\<forall>c\<in>set LETRAS_VALIDACION. c \<noteq> LETRAS_VALIDACION ! (n mod 23)
              \<longrightarrow> validate_dni db (zfill 8 n @ [c]) = Inr False)"
proof -
  have az: "\<forall>c\<in>set LETRAS_VALIDACION. is_AZ c"
    using LETRAS_AZ by (simp add: list_all_iff)
  have "n mod 23 < length LETRAS_VALIDACION" by (simp add: length_LETRAS)
  then have "LETRAS_VALIDACION ! (n mod 23) \<in> set LETRAS_VALIDACION" by (rule nth_mem)
  with az have "is_AZ (LETRAS_VALIDACION ! (n mod 23))" by blast
  then have "validate_dni db (zfill 8 n @ [LETRAS_VALIDACION ! (n mod 23)]) = Inr True"
    by (simp add: dni_of_number [OF assms])
  moreover have "\<forall>c\<in>set LETRAS_VALIDACION. c \<noteq> LETRAS_VALIDACION ! (n mod 23)
              \<longrightarrow> validate_dni db (zfill 8 n @ [c]) = Inr False"
    using az by (simp add: dni_of_number [OF assms])
  ultimately show ?thesis by blast
qed

theorem validate_dni_check_letter_witness:
  "(12345678::nat) \<le> 99999999
   \<and> validate_dni latin1_db (str ''12345678Z'') = Inr True
   \<and> validate_dni latin1_db (str ''12345678T'') = Inr False"
proof -
  have h: "(12345678::nat) \<le> 99999999" by simp
  have l1: "LETRAS_VALIDACION ! (12345678 mod 23) = 90"
    by (simp add: LETRAS_VALIDACION_def str_def)
  have l2: "84 \<in> set LETRAS_VALIDACION"
    by (simp add: LETRAS_VALIDACION_def str_def)
  note T = validate_dni_check_letter [OF h, of latin1_db, unfolded l1]
  have a: "validate_dni latin1_db (zfill 8 12345678 @ [90]) = Inr True"
    using T by (rule conjunct1)
  have "(84::nat) \<noteq> 90 \<longrightarrow> validate_dni latin1_db (zfill 8 12345678 @ [84]) = Inr False"
    using T [THEN conjunct2] l2 by (rule bspec)
  then have b: "validate_dni latin1_db (zfill 8 12345678 @ [84]) = Inr False"
    by simp
  have z: "str ''12345678Z'' = zfill 8 12345678 @ [90]"
    "str ''12345678T'' = zfill 8 12345678 @ [84]"
    by (simp_all add: zfill_12345678) (simp_all add: str_def)
  show ?thesis
    unfolding z using h a b by (intro conjI)
qed

lemma ascii_digit_plain: "is_digit db c \<Longrightarrow> c < 128 \<Longrightarrow> plain c"
  by (simp add: is_digit_def to_decimal_def plain_def split: if_splits)

lemma nie_shape_plain:
  assumes "nie_shape db s" and "list_all (\<lambda>c. c < 128) s"
  shows "list_all plain s"
  unfolding list_all_length
proof (intro allI impI)
  fix i assume i: "i < length s"
  from assms(1) have sh: "length s = 9" "s ! 0 \<in> set (str ''XYZ'')"
      "\<forall>j<7. is_digit db (s ! (1 + j))" "is_AZ (s ! 8)"
    by (simp_all add: nie_shape_alt)
  from assms(2) i have a: "s ! i < 128" by (simp add: list_all_length)
  from i sh(1) consider "i = 0" | "1 \<le> i \<and> i \<le> 7" | "i = 8" by arith
  then show "plain (s ! i)"
  proof cases
    case 1
    with sh(2) show ?thesis by (auto simp: str_def plain_def is_AZ_def)
  next
    case 2
    then have "i - 1 < 7" and "i = 1 + (i - 1)" by arith+
    with sh(3) have "is_digit db (s ! i)" by metis
    then show ?thesis using a by (rule ascii_digit_plain)
  next
    case 3
    with sh(4) show ?thesis by (simp add: plain_def)
  qed
qed

lemma fw_stable: "upper_stable fw_db"
  unfolding upper_stable_def
proof (intro allI impI)
  fix c d :: nat
  assume d: "d \<in> set (upper_char fw_db c)"
  show "upper_char fw_db d = [d] \<and> (removed fw_db d \<longrightarrow> removed fw_db c)"
    using d
    by (auto simp: upper_char_def fw_db_def latin1_upper_def removed_iff is_space_def
             split: if_splits)
qed

lemmas fw_eval = clean_eval fw_db_def latin1_upper_def

lemma clean_fw_nie:
  "clean_document fw_db [88, 65297, 65298, 65299, 65300, 65301, 65302, 65303, 76]
     = [88, 65297, 65298, 65299, 65300, 65301, 65302, 65303, 76]"
  by (simp add: fw_eval)

lemma clean_fw_nif:
  "clean_document fw_db [65, 65297, 65298, 65299, 65300, 65301, 65302, 65303, 66]
     = [65, 65297, 65298, 65299, 65300, 65301, 65302, 65303, 66]"
  "clean_document fw_db [65, 49, 50, 51, 52, 53, 54, 55, 65297]
     = [65, 49, 50, 51, 52, 53, 54, 55, 65297]"
  by (simp_all add: fw_eval)

lemma nie_shape_09_iff: "nie_shape_09 s = (nie_shape db s \<and> list_all (\<lambda>c. c < 128) s)"
proof
  assume a: "nie_shape_09 s"
  then have len: "length s = 9" by (simp add: nie_shape_09_def)
  have d: "is_09 c \<Longrightarrow> is_digit db c \<and> c < 128" for c
    by (simp add: is_09_def is_digit_def to_decimal_def)
  from a have "nie_shape db s"
    by (auto simp: nie_shape_09_def nie_shape_def list_all_iff d)
  moreover have "list_all plain s"
  proof -
    have "list_all is_09 (take 7 (drop 1 s))" "s ! 0 \<in> set (str ''XYZ'')" "is_AZ (s ! 8)"
      using a by (simp_all add: nie_shape_09_def)
    then have "\<forall>j<7. s ! (1 + j) < 128" "s ! 0 < 128" "s ! 8 < 128"
      using len by (auto simp: list_all_length is_09_def is_AZ_def str_def)
    then have "list_all (\<lambda>c. c < 128) s"
      unfolding list_all_length
    proof (intro allI impI)
      fix i assume h: "\<forall>j<7. s ! (1 + j) < 128" "s ! 0 < 128" "s ! 8 < 128" "i < length s"
      from h(4) len consider "i = 0" | "1 \<le> i \<and> i \<le> 7" | "i = 8" by arith
      then show "s ! i < 128"
      proof cases
        case 2
        then have "i - 1 < 7" and "i = 1 + (i - 1)" by arith+
        with h(1) show ?thesis by metis
      qed (use h in simp_all)
    qed
    with \<open>nie_shape db s\<close> show ?thesis by (rule nie_shape_plain)
  qed
  then have "list_all (\<lambda>c. c < 128) s"
    by (auto simp: list_all_iff plain_def is_AZ_def)
  ultimately show "nie_shape db s \<and> list_all (\<lambda>c. c < 128) s" by blast
next
  assume a: "nie_shape db s \<and> list_all (\<lambda>c. c < 128) s"
  have d: "is_digit db c \<Longrightarrow> c < 128 \<Longrightarrow> is_09 c" for c
    by (simp add: is_09_def is_digit_def to_decimal_def split: if_splits)
  from a have "\<forall>c\<in>set (take 7 (drop 1 s)). c < 128"
    by (auto simp: list_all_iff dest: in_set_takeD in_set_dropD)
  with a show "nie_shape_09 s"
    by (auto simp: nie_shape_09_def nie_shape_def list_all_iff d)
qed

lemmas shape_eval = dni_shape_def nie_shape_def nif_amended_shape_def nie_digits_def number_of_def
  is_digit_def to_decimal_def is_AZ_def LETRAS_VALIDACION_def str_def

text \<open>
  C2. \<open>validate_nie\<close> returns \<open>True\<close> exactly when the cleaned token is one of X, Y, Z,
  then 7 decimal digits in the sense of \<open>\d\<close> (any decimal digit of the Unicode table,
  not only 0 to 9), then an upper-case letter A to Z, and that last letter is the one of
  \<open>LETRAS_VALIDACION\<close> at index \<open>n mod 23\<close>, where \<open>n\<close> is the number written by the
  prefix digit (0 for X, 1 for Y, 2 for Z) and the 7 digits. A token of that shape
  written with the digits 0 to 9 is its own cleaned form, so the equivalence holds for
  the token as given; a token whose cleaned form is not of that shape gives \<open>False\<close>.

  With "decimal digit" read as 0 to 9 the claim fails: X, the full-width digits 1 to 7
  and L is not of that shape, and \<open>validate_nie\<close> returns \<open>True\<close> on it.
\<close>

theorem validate_nie_spec:
  "validate_nie db s =
     Inr (nie_shape db (clean_document db s)
          \<and> clean_document db s ! 8
              = LETRAS_VALIDACION ! (number_of db (nie_digits (clean_document db s)) mod 23))
   \<and> (nie_shape_09 s \<longrightarrow>
        validate_nie db s
          = Inr (s ! 8 = LETRAS_VALIDACION ! (number_of db (nie_digits s) mod 23)))
   \<and> (\<not> nie_shape db (clean_document db s) \<longrightarrow> validate_nie db s = Inr False)"
proof (intro conjI impI)
  show "validate_nie db s =
     Inr (nie_shape db (clean_document db s)
          \<and> clean_document db s ! 8
              = LETRAS_VALIDACION ! (number_of db (nie_digits (clean_document db s)) mod 23))"
    by (rule validate_nie_eq)
next
  assume "nie_shape_09 s"
  then have a: "nie_shape db s" "list_all (\<lambda>c. c < 128) s"
    by (simp_all add: nie_shape_09_iff [of s db])
  then have "clean_document db s = s"
    by (intro clean_fixed nie_shape_plain [of db])
  with a show "validate_nie db s
          = Inr (s ! 8 = LETRAS_VALIDACION ! (number_of db (nie_digits s) mod 23))"
    by (simp add: validate_nie_eq)
next
  assume "\<not> nie_shape db (clean_document db s)"
  then show "validate_nie db s = Inr False"
    by (simp add: validate_nie_eq)
qed

theorem validate_nie_spec_witness:
  "nie_shape_09 (str ''X1234567L'')
   \<and> validate_nie latin1_db (str ''X1234567L'') = Inr True
   \<and> \<not> nie_shape latin1_db (clean_document latin1_db (str ''X123''))
   \<and> validate_nie latin1_db (str ''X123'') = Inr False
   \<and> nie_shape fw_db
        (clean_document fw_db [88, 65297, 65298, 65299, 65300, 65301, 65302, 65303, 76])
   \<and> validate_nie fw_db [88, 65297, 65298, 65299, 65300, 65301, 65302, 65303, 76] = Inr True"
proof -
  have a: "nie_shape_09 (str ''X1234567L'')"
    by (simp add: nie_shape_09_def is_09_def is_AZ_def str_def)
  have c: "\<not> nie_shape latin1_db (clean_document latin1_db (str ''X123''))"
    by (simp add: clean_eval str_def nie_shape_def)
  have d: "str ''X1234567L'' ! 8
             = LETRAS_VALIDACION ! (number_of latin1_db (nie_digits (str ''X1234567L'')) mod 23)"
    by (simp add: shape_eval)
  from validate_nie_spec [of latin1_db "str ''X1234567L''", THEN conjunct2, THEN conjunct1,
      THEN mp, OF a]
  have e: "validate_nie latin1_db (str ''X1234567L'') = Inr True" by (simp add: d)
  from validate_nie_spec [of latin1_db "str ''X123''", THEN conjunct2, THEN conjunct2,
      THEN mp, OF c]
  have f: "validate_nie latin1_db (str ''X123'') = Inr False" .
  have g: "nie_shape fw_db
        (clean_document fw_db [88, 65297, 65298, 65299, 65300, 65301, 65302, 65303, 76])"
    unfolding clean_fw_nie
    by (simp add: nie_shape_def is_digit_def to_decimal_def is_AZ_def str_def fw_db_def)
  have h: "validate_nie fw_db [88, 65297, 65298, 65299, 65300, 65301, 65302, 65303, 76]
             = Inr True"
    unfolding validate_nie_spec
      [of fw_db "[88, 65297, 65298, 65299, 65300, 65301, 65302, 65303, 76]", THEN conjunct1]
      clean_fw_nie
    by (simp add: shape_eval fw_db_def)
  from a c e f g h show ?thesis by (intro conjI)
qed

lemma nie_fullwidth:
  "validate_nie fw_db [88, 65297, 65298, 65299, 65300, 65301, 65302, 65303, 76] = Inr True"
  unfolding validate_nie_eq clean_fw_nie by (simp add: shape_eval fw_db_def)

theorem validate_nie_spec_counterexample:
  "validate_nie fw_db [88, 65297, 65298, 65299, 65300, 65301, 65302, 65303, 76] = Inr True
   \<and> \<not> nie_shape_09
         (clean_document fw_db [88, 65297, 65298, 65299, 65300, 65301, 65302, 65303, 76])"
  unfolding clean_fw_nie by (simp add: nie_fullwidth) (simp add: nie_shape_09_def is_09_def)

text \<open>
  C4. \<open>validate_nif\<close> returns \<open>True\<close> exactly for the strings whose cleaned form is one
  letter of A B C D E F G H J N P Q R S U V W, then 7 decimal digits in the sense of
  \<open>\d\<close> (any decimal digit of the Unicode table), then one character that is a digit
  0 to 9 or an upper-case letter A to Z, and \<open>False\<close> for every other string: the shape
  is the only check. The upper-case mapping of the Unicode table must not produce white
  space, which \<open>upper_stable\<close> states.

  The claim reads "decimal digit" one way in both places, and fails either way: with
  digits 0 to 9, A followed by the full-width digits 1 to 7 and B is not of the shape
  and is accepted; with any Unicode decimal digit, A1234567 followed by a full-width 1
  is of the shape and is rejected.
\<close>

theorem validate_nif_shape_only:
  assumes "upper_stable db"
  shows "validate_nif db s = Inr (nif_amended_shape db (clean_document db s))"
  using assms by (rule validate_nif_eq)

theorem validate_nif_shape_only_witness:
  "upper_stable latin1_db
   \<and> validate_nif latin1_db (str ''a-1234567 b'') = Inr True
   \<and> validate_nif latin1_db (str ''K1234567B'') = Inr False
   \<and> validate_nif latin1_db (str ''A123456B'') = Inr False
   \<and> validate_nif latin1_db (str ''A12345678B'') = Inr False"
proof -
  note T = validate_nif_shape_only [OF latin1_stable]
  have "validate_nif latin1_db (str ''a-1234567 b'') = Inr True"
    unfolding T
    by (simp add: clean_eval str_def nif_amended_shape_def is_09_def is_digit_def to_decimal_def
          is_AZ_def)
  moreover have "validate_nif latin1_db (str ''K1234567B'') = Inr False"
    unfolding T
    by (simp add: clean_eval str_def nif_amended_shape_def is_09_def is_digit_def to_decimal_def
          is_AZ_def)
  moreover have "validate_nif latin1_db (str ''A123456B'') = Inr False"
    unfolding T
    by (simp add: clean_eval str_def nif_amended_shape_def is_09_def is_digit_def to_decimal_def
          is_AZ_def)
  moreover have "validate_nif latin1_db (str ''A12345678B'') = Inr False"
    unfolding T
    by (simp add: clean_eval str_def nif_amended_shape_def is_09_def is_digit_def to_decimal_def
          is_AZ_def)
  ultimately show ?thesis using latin1_stable by (intro conjI)
qed

theorem validate_nif_shape_only_counterexample:
  "validate_nif fw_db [65, 65297, 65298, 65299, 65300, 65301, 65302, 65303, 66] = Inr True
   \<and> \<not> nif_shape_09
         (clean_document fw_db [65, 65297, 65298, 65299, 65300, 65301, 65302, 65303, 66])
   \<and> validate_nif fw_db [65, 49, 50, 51, 52, 53, 54, 55, 65297] = Inr False
   \<and> nif_shape_unicode fw_db
         (clean_document fw_db [65, 49, 50, 51, 52, 53, 54, 55, 65297])"
  unfolding validate_nif_eq [OF fw_stable] clean_fw_nif
  by (simp add: nif_amended_shape_def nif_shape_09_def nif_shape_unicode_def is_09_def
        is_digit_def to_decimal_def is_AZ_def str_def fw_db_def)

text \<open>
  C7. The three validators return a boolean on every string: no exception leaves them.
  A string whose cleaned form is not of the DNI shape (the NIE shape) gives \<open>False\<close>.
\<close>

theorem validators_total:
  "(\<exists>b. validate_dni db s = Inr b) \<and> (\<exists>b. validate_nie db s = Inr b)
   \<and> (\<exists>b. validate_nif db s = Inr b)
   \<and> (\<not> dni_shape db (clean_document db s) \<longrightarrow> validate_dni db s = Inr False)
   \<and> (\<not> nie_shape db (clean_document db s) \<longrightarrow> validate_nie db s = Inr False)"
proof (intro conjI impI)
  show "\<exists>b. validate_dni db s = Inr b" by (subst validate_dni_eq) blast
  show "\<exists>b. validate_nie db s = Inr b" by (subst validate_nie_eq) blast
  show "\<exists>b. validate_nif db s = Inr b" by (subst validate_nif_total) blast
next
  assume "\<not> dni_shape db (clean_document db s)"
  then show "validate_dni db s = Inr False" by (simp add: validate_dni_eq)
next
  assume "\<not> nie_shape db (clean_document db s)"
  then show "validate_nie db s = Inr False" by (simp add: validate_nie_eq)
qed

theorem validators_total_witness:
  "\<not> dni_shape latin1_db (clean_document latin1_db (str ''1234x''))
   \<and> validate_dni latin1_db (str ''1234x'') = Inr False
   \<and> \<not> nie_shape latin1_db (clean_document latin1_db (str ''XABCDEFGH''))
   \<and> validate_nie latin1_db (str ''XABCDEFGH'') = Inr False"
proof -
  have a: "\<not> dni_shape latin1_db (clean_document latin1_db (str ''1234x''))"
    by (simp add: clean_eval str_def dni_shape_def)
  have b: "\<not> nie_shape latin1_db (clean_document latin1_db (str ''XABCDEFGH''))"
    by (simp add: clean_eval str_def nie_shape_def is_digit_def to_decimal_def)
  from validators_total [of latin1_db "str ''1234x''"] a
  have c: "validate_dni latin1_db (str ''1234x'') = Inr False" by blast
  from validators_total [of latin1_db "str ''XABCDEFGH''"] b
  have d: "validate_nie latin1_db (str ''XABCDEFGH'') = Inr False" by blast
  from a b c d show ?thesis by (intro conjI)
qed

text \<open>
  C8. \<open>clean_document\<close> is idempotent; its result holds no white space, period or
  hyphen, and is its own upper case.
\<close>

theorem clean_document_idempotent:
  assumes "upper_stable db"
  shows "clean_document db (clean_document db s) = clean_document db s
         \<and> (\<forall>c\<in>set (clean_document db s).
               \<not> is_space db c \<and> c \<noteq> ord CHR ''.'' \<and> c \<noteq> ord CHR ''-'')
         \<and> upper db (clean_document db s) = clean_document db s"
proof (intro conjI ballI)
  show "clean_document db (clean_document db s) = clean_document db s"
    using assms by (rule clean_idem)
next
  fix c assume "c \<in> set (clean_document db s)"
  then have "\<not> removed db c" by (rule clean_no_removed [OF assms])
  then show "\<not> is_space db c" "c \<noteq> ord CHR ''.''" "c \<noteq> ord CHR ''-''"
    by (simp_all add: removed_iff)
next
  show "upper db (clean_document db s) = clean_document db s"
    by (simp add: clean_document_def [of db s] upper_idem [OF assms])
qed

lemma clean_sample:
  "clean_document latin1_db [32, 49, 46, 223, 45, 122, 160] = [49, 83, 83, 90]"
  by (simp add: clean_eval latin1_db_def latin1_upper_def)

theorem clean_document_idempotent_witness:
  "upper_stable latin1_db
   \<and> clean_document latin1_db [32, 49, 46, 223, 45, 122, 160] = [49, 83, 83, 90]
   \<and> clean_document latin1_db [49, 83, 83, 90] = [49, 83, 83, 90]"
  using clean_document_idempotent [OF latin1_stable, of "[32, 49, 46, 223, 45, 122, 160]"]
    latin1_stable
  by (simp add: clean_sample)

text \<open>
  C10. Each validator gives the same result on a string and on its cleaned form.
\<close>

theorem validators_clean_invariant:
  assumes "upper_stable db"
  shows "validate_dni db (clean_document db s) = validate_dni db s
         \<and> validate_nie db (clean_document db s) = validate_nie db s
         \<and> validate_nif db (clean_document db s) = validate_nif db s"
  by (simp add: validate_dni_def validate_nie_def validate_nif_def Let_def clean_idem [OF assms])

lemma clean_dotted: "clean_document latin1_db (str ''12.345.678-z'') = str ''12345678Z''"
  by (simp add: clean_eval str_def)

lemma dni_12345678Z: "validate_dni db (str ''12345678Z'') = Inr True"
  using dni_of_number [of 12345678 90 db]
  by (simp add: zfill_12345678 is_AZ_def) (simp add: str_def LETRAS_VALIDACION_def)

lemma find_dotted: "finditer db PATRON_DNI (str ''12.345.678-z'') = []"
  by (simp add: re_eval)

theorem validators_clean_invariant_witness:
  "upper_stable latin1_db
   \<and> clean_document latin1_db (str ''12.345.678-z'') = str ''12345678Z''
   \<and> validate_dni latin1_db (str ''12.345.678-z'') = Inr True
   \<and> finditer latin1_db PATRON_DNI (str ''12.345.678-z'') = []"
  using validators_clean_invariant [OF latin1_stable, of "str ''12.345.678-z''"] latin1_stable
  by (simp add: clean_dotted dni_12345678Z find_dotted)

lemma finditer_from_sound:
  "\<forall>m\<in>set (finditer_from db r s pos). match_here db r s (fst m) = Some (snd m)"
proof (induction db r s pos rule: finditer_from.induct)
  case (1 db r s pos)
  show ?case
  proof (cases "length s < pos")
    case True
    then show ?thesis by (subst finditer_from.simps) simp
  next
    case False
    show ?thesis
    proof (cases "match_here db r s pos")
      case None
      have eq: "finditer_from db r s pos = finditer_from db r s (Suc pos)"
        using False None by (subst finditer_from.simps) simp
      show ?thesis
        unfolding eq using 1(1) [OF False None] .
    next
      case (Some e)
      let ?next = "if pos < e then e else Suc pos"
      have eq: "finditer_from db r s pos = (pos, e) # finditer_from db r s ?next"
        using False Some by (subst finditer_from.simps) simp
      show ?thesis
        unfolding eq using 1(2) [OF False Some] Some by simp
    qed
  qed
qed

lemma finditer_sound:
  "\<forall>m\<in>set (finditer db r s). match_here db r s (fst m) = Some (snd m)"
  using finditer_from_sound [of db r s 0] by (simp add: finditer_def)

lemma find_X1234567L:
  "finditer db PATRON_DNI (str ''X1234567L no coincide'') = []"
  "finditer db PATRON_NIE (str ''X1234567L no coincide'') = [(0, 9)]"
  "finditer db PATRON_NIF (str ''X1234567L no coincide'') = []"
  by (simp_all add: re_eval)

lemma clean_X1234567L: "clean_document db (str ''X1234567L'') = str ''X1234567L''"
  by (rule clean_fixed) (simp add: str_def plain_def is_AZ_def)

lemma nie_X1234567L: "validate_nie db (str ''X1234567L'') = Inr True"
  unfolding validate_nie_eq clean_X1234567L by (simp add: shape_eval)

lemma results_X1234567L:
  "process_pdf db (str ''X1234567L no coincide'') s0 =
     ([\<lparr> tipo = NIE, documento = str ''X1234567L'', documento_limpio = str ''X1234567L'',
         valido = True \<rparr>],
      s0\<lparr>nie_validos := nie_validos s0 + 1,
          archivos_procesados := archivos_procesados s0 + 1\<rparr>)"
proof -
  have g: "group (str ''X1234567L no coincide'') (0, 9) = str ''X1234567L''"
    by (simp add: group_def str_def)
  show ?thesis
    by (simp add: process_pdf_eq scan_results_def find_X1234567L resultado_of_def g
          clean_X1234567L valid_flag_def nie_X1234567L tally_def)
qed

lemma finditer_from_apart:
  "sorted_wrt (\<lambda>a b. fst a < fst b \<and> snd a \<le> fst b) (finditer_from db r s pos)
   \<and> (\<forall>m\<in>set (finditer_from db r s pos). pos \<le> fst m)"
proof (induction db r s pos rule: finditer_from.induct)
  case (1 db r s pos)
  show ?case
  proof (cases "length s < pos")
    case True
    then show ?thesis by (subst (1 2) finditer_from.simps) simp
  next
    case False
    show ?thesis
    proof (cases "match_here db r s pos")
      case None
      have eq: "finditer_from db r s pos = finditer_from db r s (Suc pos)"
        using False None by (subst finditer_from.simps) simp
      show ?thesis
        unfolding eq using 1(1) [OF False None] by fastforce
    next
      case (Some e)
      let ?next = "if pos < e then e else Suc pos"
      have eq: "finditer_from db r s pos = (pos, e) # finditer_from db r s ?next"
        using False Some by (subst finditer_from.simps) simp
      have "pos < ?next" and "e \<le> ?next" by simp_all
      then show ?thesis
        unfolding eq using 1(2) [OF False Some] by fastforce
    qed
  qed
qed

lemma finditer_from_complete:
  "pos \<le> p \<Longrightarrow> p \<le> length s \<Longrightarrow> match_here db r s p = Some e \<Longrightarrow>
     (p, e) \<in> set (finditer_from db r s pos)
     \<or> (\<exists>m\<in>set (finditer_from db r s pos). fst m < p \<and> p < snd m)"
proof (induction db r s pos rule: finditer_from.induct)
  case (1 db r s pos)
  from "1.prems" have nl: "\<not> length s < pos" by simp
  show ?case
  proof (cases "match_here db r s pos")
    case None
    have eq: "finditer_from db r s pos = finditer_from db r s (Suc pos)"
      using nl None by (subst finditer_from.simps) simp
    from None "1.prems"(3) have "p \<noteq> pos" by auto
    with "1.prems"(1) have "Suc pos \<le> p" by simp
    then show ?thesis
      unfolding eq using "1.IH"(1) [OF nl None] "1.prems"(2,3) by blast
  next
    case (Some e')
    let ?next = "if pos < e' then e' else Suc pos"
    have eq: "finditer_from db r s pos = (pos, e') # finditer_from db r s ?next"
      using nl Some by (subst finditer_from.simps) simp
    consider "p = pos" | "pos < p" "p < ?next" | "?next \<le> p"
      using "1.prems"(1) by linarith
    then show ?thesis
    proof cases
      case 1
      with Some "1.prems"(3) have "e = e'" by simp
      with 1 show ?thesis unfolding eq by simp
    next
      case 2
      then have "pos < p \<and> p < e'" by (simp split: if_splits)
      then show ?thesis unfolding eq by simp
    next
      case 3
      from "1.IH"(2) [OF nl Some 3 "1.prems"(2,3)] show ?thesis
        unfolding eq by auto
    qed
  qed
qed

lemma finditer_leftmost: "leftmost_matches db r s (finditer db r s)"
  unfolding leftmost_matches_def
proof (intro conjI ballI allI impI)
  show "sorted_wrt (\<lambda>a b. fst a < fst b \<and> snd a \<le> fst b) (finditer db r s)"
    using finditer_from_apart [of db r s 0] by (simp add: finditer_def)
next
  fix m assume "m \<in> set (finditer db r s)"
  then show "match_here db r s (fst m) = Some (snd m)"
    using finditer_sound [of db r s] by blast
next
  fix p e assume "p \<in> {0..length s}" and "match_here db r s p = Some e"
  then show "(p, e) \<in> set (finditer db r s)
             \<or> (\<exists>m\<in>set (finditer db r s). fst m < p \<and> p < snd m)"
    using finditer_from_complete [of 0 p s db r e] by (simp add: finditer_def)
qed

text \<open>
  C3. Scanning the text \<open>X1234567L no coincide\<close> gives one result, of type NIE, and its
  valid flag is \<open>True\<close>: the prefix digit 0 before 1234567 writes the number 1234567,
  1234567 mod 23 is 19, and the letter of \<open>LETRAS_VALIDACION\<close> at index 19 is L, the last
  letter of the token. The flag is not \<open>False\<close>, and the remainder is not 3.
\<close>

theorem scan_X1234567L_valid:
  "fst (process_pdf db (str ''X1234567L no coincide'') s0) =
     [\<lparr> tipo = NIE, documento = str ''X1234567L'', documento_limpio = str ''X1234567L'',
        valido = True \<rparr>]
   \<and> number_of db (nie_digits (str ''X1234567L'')) = 1234567
   \<and> (1234567 :: nat) mod 23 = 19
   \<and> LETRAS_VALIDACION ! 19 = ord CHR ''L''"
  by (simp add: results_X1234567L) (simp add: shape_eval)

theorem scan_X1234567L_counterexample:
  "fst (process_pdf latin1_db (str ''X1234567L no coincide'') init_stats) =
     [\<lparr> tipo = NIE, documento = str ''X1234567L'', documento_limpio = str ''X1234567L'',
        valido = True \<rparr>]"
  by (simp add: results_X1234567L)

text \<open>
  C5. The results of one scan are the matches of the DNI pattern, then those of the NIE
  pattern, then those of the NIF pattern: three passes over the whole text. Each pass
  lists the non-overlapping matches of its pattern from left to right: every entry is a
  match, the start offsets increase strictly and no entry starts before the end of the
  one before it, and no match is left out (a position where the pattern matches starts
  an entry, or lies strictly inside one).
\<close>

theorem process_pdf_order:
  "fst (process_pdf db texto s0) =
     map (resultado_of db texto DNI) (finditer db PATRON_DNI texto)
     @ map (resultado_of db texto NIE) (finditer db PATRON_NIE texto)
     @ map (resultado_of db texto NIF) (finditer db PATRON_NIF texto)
   \<and> leftmost_matches db PATRON_DNI texto (finditer db PATRON_DNI texto)
   \<and> leftmost_matches db PATRON_NIE texto (finditer db PATRON_NIE texto)
   \<and> leftmost_matches db PATRON_NIF texto (finditer db PATRON_NIF texto)"
  by (simp add: process_pdf_eq scan_results_def finditer_leftmost)

lemma clean_12345678Z: "clean_document db (str ''12345678Z'') = str ''12345678Z''"
  by (rule clean_fixed) (simp add: str_def plain_def is_AZ_def)

lemma find_three:
  "finditer db PATRON_DNI (str ''12345678Z X1234567L 11111111A'') = [(0, 9), (20, 29)]"
  "finditer db PATRON_NIE (str ''12345678Z X1234567L 11111111A'') = [(10, 19)]"
  "finditer db PATRON_NIF (str ''12345678Z X1234567L 11111111A'') = []"
  by (simp_all add: re_eval)

lemma clean_11111111A: "clean_document db (str ''11111111A'') = str ''11111111A''"
  by (rule clean_fixed) (simp add: str_def plain_def is_AZ_def)

lemma dni_11111111A: "validate_dni db (str ''11111111A'') = Inr False"
  unfolding validate_dni_eq clean_11111111A by (simp add: shape_eval)

lemma match_at_20:
  "match_here db PATRON_DNI (str ''12345678Z X1234567L 11111111A'') 20 = Some 29"
  using finditer_sound [of db PATRON_DNI "str ''12345678Z X1234567L 11111111A''"]
  by (simp add: find_three)

theorem process_pdf_order_witness:
  "fst (process_pdf latin1_db (str ''12345678Z X1234567L 11111111A'') init_stats) =
     [\<lparr> tipo = DNI, documento = str ''12345678Z'', documento_limpio = str ''12345678Z'',
        valido = True \<rparr>,
      \<lparr> tipo = DNI, documento = str ''11111111A'', documento_limpio = str ''11111111A'',
        valido = False \<rparr>,
      \<lparr> tipo = NIE, documento = str ''X1234567L'', documento_limpio = str ''X1234567L'',
        valido = True \<rparr>]
   \<and> finditer latin1_db PATRON_DNI (str ''12345678Z X1234567L 11111111A'')
       = [(0, 9), (20, 29)]
   \<and> (20 :: nat) \<in> {0..length (str ''12345678Z X1234567L 11111111A'')}
   \<and> match_here latin1_db PATRON_DNI (str ''12345678Z X1234567L 11111111A'') 20 = Some 29
   \<and> (20, 29) \<in> set (finditer latin1_db PATRON_DNI (str ''12345678Z X1234567L 11111111A''))"
proof -
  let ?t = "str ''12345678Z X1234567L 11111111A''"
  have g: "group ?t (0, 9) = str ''12345678Z''" "group ?t (20, 29) = str ''11111111A''"
    "group ?t (10, 19) = str ''X1234567L''"
    by (simp_all add: group_def str_def)
  note T = process_pdf_order [of latin1_db ?t init_stats]
  have a: "fst (process_pdf latin1_db ?t init_stats) =
     [\<lparr> tipo = DNI, documento = str ''12345678Z'', documento_limpio = str ''12345678Z'',
        valido = True \<rparr>,
      \<lparr> tipo = DNI, documento = str ''11111111A'', documento_limpio = str ''11111111A'',
        valido = False \<rparr>,
      \<lparr> tipo = NIE, documento = str ''X1234567L'', documento_limpio = str ''X1234567L'',
        valido = True \<rparr>]"
    unfolding T [THEN conjunct1]
    by (simp add: find_three resultado_of_def g clean_X1234567L clean_12345678Z
          clean_11111111A valid_flag_def nie_X1234567L dni_12345678Z dni_11111111A)
  have r: "(20 :: nat) \<in> {0..length ?t}" by (simp add: str_def)
  have m: "match_here latin1_db PATRON_DNI ?t 20 = Some 29" by (rule match_at_20)
  from T have "leftmost_matches latin1_db PATRON_DNI ?t (finditer latin1_db PATRON_DNI ?t)"
    by blast
  then have "\<forall>p\<in>{0..length ?t}. \<forall>e. match_here latin1_db PATRON_DNI ?t p = Some e \<longrightarrow>
            (p, e) \<in> set (finditer latin1_db PATRON_DNI ?t)
            \<or> (\<exists>m\<in>set (finditer latin1_db PATRON_DNI ?t). fst m < p \<and> p < snd m)"
    unfolding leftmost_matches_def by blast
  with r m have "(20, 29) \<in> set (finditer latin1_db PATRON_DNI ?t)
            \<or> (\<exists>m\<in>set (finditer latin1_db PATRON_DNI ?t). fst m < 20 \<and> 20 < snd m)"
    by blast
  then have b: "(20, 29) \<in> set (finditer latin1_db PATRON_DNI ?t)"
    by (simp add: find_three)
  from a r m b show ?thesis by (simp add: find_three)
qed

text \<open>
  C6. One scan adds to \<open>dni_validos\<close>, \<open>nie_validos\<close> and \<open>nif_validos\<close> the number of
  valid results of that type, to \<open>docs_invalidos\<close> the number of invalid results, and 1
  to \<open>archivos_procesados\<close>. The four result counters grow together by the number of
  results, so each result adds to exactly one of them, and no counter decreases.
\<close>

theorem process_pdf_counters:
  fixes db texto s0
  defines "rs \<equiv> fst (process_pdf db texto s0)" and "s1 \<equiv> snd (process_pdf db texto s0)"
  shows "dni_validos s1 = dni_validos s0 + count_where (\<lambda>r. tipo r = DNI \<and> valido r) rs
    \<and> nie_validos s1 = nie_validos s0 + count_where (\<lambda>r. tipo r = NIE \<and> valido r) rs
    \<and> nif_validos s1 = nif_validos s0 + count_where (\<lambda>r. tipo r = NIF \<and> valido r) rs
    \<and> docs_invalidos s1 = docs_invalidos s0 + count_where (\<lambda>r. \<not> valido r) rs
    \<and> archivos_procesados s1 = archivos_procesados s0 + 1
    \<and> (dni_validos s1 - dni_validos s0) + (nie_validos s1 - nie_validos s0)
        + (nif_validos s1 - nif_validos s0) + (docs_invalidos s1 - docs_invalidos s0)
        = int (length rs)
    \<and> dni_validos s0 \<le> dni_validos s1 \<and> nie_validos s0 \<le> nie_validos s1
    \<and> nif_validos s0 \<le> nif_validos s1 \<and> docs_invalidos s0 \<le> docs_invalidos s1
    \<and> archivos_procesados s0 \<le> archivos_procesados s1"
proof -
  have rs: "rs = scan_results db texto" by (simp add: rs_def process_pdf_eq)
  have c: "dni_validos s1 = dni_validos s0 + count_where (\<lambda>r. tipo r = DNI \<and> valido r) rs"
    "nie_validos s1 = nie_validos s0 + count_where (\<lambda>r. tipo r = NIE \<and> valido r) rs"
    "nif_validos s1 = nif_validos s0 + count_where (\<lambda>r. tipo r = NIF \<and> valido r) rs"
    "docs_invalidos s1 = docs_invalidos s0 + count_where (\<lambda>r. \<not> valido r) rs"
    "archivos_procesados s1 = archivos_procesados s0 + 1"
    by (simp_all add: s1_def rs process_pdf_eq tally_fold)
  have nn: "0 \<le> count_where P rs" for P by (simp add: count_where_def)
  show ?thesis
    using count_partition [of rs] nn by (simp add: c)
qed

lemma find_mixed:
  "finditer db PATRON_DNI (str ''12345678Z X1234567A'') = [(0, 9)]"
  "finditer db PATRON_NIE (str ''12345678Z X1234567A'') = [(10, 19)]"
  "finditer db PATRON_NIF (str ''12345678Z X1234567A'') = []"
  by (simp_all add: re_eval)

lemma clean_X1234567A: "clean_document db (str ''X1234567A'') = str ''X1234567A''"
  by (rule clean_fixed) (simp add: str_def plain_def is_AZ_def)

lemma nie_X1234567A: "validate_nie db (str ''X1234567A'') = Inr False"
  unfolding validate_nie_eq clean_X1234567A by (simp add: shape_eval)

lemma scan_mixed:
  "fst (process_pdf db (str ''12345678Z X1234567A'') s0) =
     [\<lparr> tipo = DNI, documento = str ''12345678Z'', documento_limpio = str ''12345678Z'',
        valido = True \<rparr>,
      \<lparr> tipo = NIE, documento = str ''X1234567A'', documento_limpio = str ''X1234567A'',
        valido = False \<rparr>]"
proof -
  have g: "group (str ''12345678Z X1234567A'') (0, 9) = str ''12345678Z''"
    "group (str ''12345678Z X1234567A'') (10, 19) = str ''X1234567A''"
    by (simp_all add: group_def str_def)
  show ?thesis
    by (simp add: process_pdf_eq scan_results_def find_mixed resultado_of_def g
          clean_X1234567A clean_12345678Z valid_flag_def nie_X1234567A dni_12345678Z)
qed

theorem process_pdf_counters_witness:
  "dni_validos (snd (process_pdf latin1_db (str ''12345678Z X1234567A'') init_stats)) = 1
   \<and> nie_validos (snd (process_pdf latin1_db (str ''12345678Z X1234567A'') init_stats)) = 0
   \<and> nif_validos (snd (process_pdf latin1_db (str ''12345678Z X1234567A'') init_stats)) = 0
   \<and> docs_invalidos (snd (process_pdf latin1_db (str ''12345678Z X1234567A'') init_stats)) = 1
   \<and> archivos_procesados
        (snd (process_pdf latin1_db (str ''12345678Z X1234567A'') init_stats)) = 1"
  using process_pdf_counters [of latin1_db "str ''12345678Z X1234567A''" init_stats]
  by (simp add: scan_mixed count_where_def init_stats_def)

lemma find_empty:
  "finditer db PATRON_DNI [] = []" "finditer db PATRON_NIE [] = []"
  "finditer db PATRON_NIF [] = []"
  by (simp_all add: re_eval)

text \<open>
  C9. A text in which none of the three patterns matches, the empty text among them, gives
  no result, and the only counter that changes is \<open>archivos_procesados\<close>, which grows
  by 1.
\<close>

theorem process_pdf_no_match:
  "(finditer db PATRON_DNI texto = [] \<and> finditer db PATRON_NIE texto = []
      \<and> finditer db PATRON_NIF texto = []
    \<longrightarrow> process_pdf db texto s0
          = ([], s0\<lparr>archivos_procesados := archivos_procesados s0 + 1\<rparr>))
   \<and> process_pdf db [] s0 = ([], s0\<lparr>archivos_procesados := archivos_procesados s0 + 1\<rparr>)"
  by (simp add: process_pdf_eq scan_results_def find_empty)

lemma find_none:
  "finditer db PATRON_DNI (str ''sin documentos, ref 1234567Z'') = []"
  "finditer db PATRON_NIE (str ''sin documentos, ref 1234567Z'') = []"
  "finditer db PATRON_NIF (str ''sin documentos, ref 1234567Z'') = []"
  by (simp_all add: re_eval)

theorem process_pdf_no_match_witness:
  "finditer latin1_db PATRON_DNI (str ''sin documentos, ref 1234567Z'') = []
   \<and> finditer latin1_db PATRON_NIE (str ''sin documentos, ref 1234567Z'') = []
   \<and> finditer latin1_db PATRON_NIF (str ''sin documentos, ref 1234567Z'') = []
   \<and> process_pdf latin1_db (str ''sin documentos, ref 1234567Z'') init_stats
       = ([], init_stats\<lparr>archivos_procesados := 1\<rparr>)"
  using process_pdf_no_match [of latin1_db "str ''sin documentos, ref 1234567Z''" init_stats]
  by (simp add: find_none init_stats_def)

end
